theory Spec2Isabelle
  imports Main "HOL-Library.Word"
begin

unbundle bit_operations_syntax

section \<open>Memory and the SDK's types (sol\_bpf.h)\<close>

text \<open>
  The program runs on an LP64 machine: pointers and \<open>uint64_t\<close> are 64-bit words and
  pointer arithmetic wraps modulo \<open>2 ^ 64\<close>. Memory is a flat array of bytes indexed by
  address, and no read is checked against any buffer extent, as in the source.
\<close>

type_synonym addr = "64 word"
type_synonym mem = "addr \<Rightarrow> 8 word"

text \<open>\<open>*(uint64_t *) p\<close>: eight bytes, little-endian.\<close>

definition read_u64 :: "mem \<Rightarrow> addr \<Rightarrow> 64 word" where
  "read_u64 m p =
     word_rcat [m (p + 7), m (p + 6), m (p + 5), m (p + 4), m (p + 3), m (p + 2), m (p + 1), m p]"

text \<open>\<open>SolKeyedAccounts\<close>: four pointers into the input buffer and one length.\<close>

record SolKeyedAccounts =
  key :: addr
  tokens :: addr
  userdata_len :: "64 word"
  userdata :: addr
  program_id :: addr

text \<open>
  What \<open>sol_deserialize\<close> writes through its pointer parameters: the caller's array
  \<open>ka\<close> (entry \<open>ka[i]\<close> is \<open>ka_arr s i\<close>, with \<open>i\<close> the value of the C \<open>int\<close> index),
  the cell \<open>*ka_len_out\<close> (\<open>None\<close> when the pointer is \<open>NULL\<close>), and the cells
  \<open>*data\<close> and \<open>*data_len\<close>.
\<close>

record caller_state =
  ka_arr :: "int \<Rightarrow> SolKeyedAccounts"
  ka_len_out :: "64 word option"
  data :: addr
  data_len :: "64 word"

abbreviation SIZE_PUBKEY :: "64 word" where
  "SIZE_PUBKEY \<equiv> 32"

section \<open>sol\_deserialize\<close>

text \<open>
  One pass of the loop body at cursor \<open>input\<close>: the entry written to \<open>ka[i]\<close> and the
  cursor after it.
\<close>

definition decode_account :: "mem \<Rightarrow> addr \<Rightarrow> SolKeyedAccounts \<times> addr" where
  "decode_account m input =
     (let k = input;
          input1 = input + SIZE_PUBKEY;
          t = input1;
          input2 = input1 + 8;
          len = read_u64 m input2;
          input3 = input2 + 8;
          u = input3;
          input4 = input3 + len;
          p = input4;
          input5 = input4 + SIZE_PUBKEY
      in (\<lparr>key = k, tokens = t, userdata_len = len, userdata = u, program_id = p\<rparr>, input5))"

lemma loop_counter_not_max: "(scast (i :: 32 word) :: 64 word) < n \<Longrightarrow> i \<noteq> - 1"
  by (auto simp: scast_n1)

lemma unat_loop_counter_Suc:
  assumes "(i :: 32 word) \<noteq> - 1"
  shows "unat (i + 1) = Suc (unat i)"
proof -
  have "1 + i \<noteq> 0" using assms by (simp add: add_eq_0_iff)
  then show ?thesis by (simp add: unatSuc add.commute)
qed

text \<open>
  \<open>for (int i = 0; i < ka_len; i++)\<close>: \<open>i\<close> is a 32-bit \<open>int\<close>, converted to
  \<open>uint64_t\<close> (sign extension) for the comparison; the increment wraps as the machine's
  32-bit addition does. The loop returns the final cursor and the array.
\<close>

function deserialize_loop ::
  "mem \<Rightarrow> 64 word \<Rightarrow> 32 word \<Rightarrow> addr \<Rightarrow> (int \<Rightarrow> SolKeyedAccounts)
     \<Rightarrow> addr \<times> (int \<Rightarrow> SolKeyedAccounts)" where
  "deserialize_loop m ka_len i input ka =
     (if (scast i :: 64 word) < ka_len
      then (case decode_account m input of
              (v, input') \<Rightarrow> deserialize_loop m ka_len (i + 1) input' (ka(sint i := v)))
      else (input, ka))"
  by pat_completeness auto

termination
proof (relation "measure (\<lambda>(m, ka_len, i, input, ka). 2 ^ 32 - unat i)")
  show "wf (measure (\<lambda>(m, ka_len, i, input, ka). 2 ^ 32 - unat (i :: 32 word)))"
    by simp
next
  fix m :: mem and ka_len :: "64 word" and i :: "32 word" and input :: addr
    and ka :: "int \<Rightarrow> SolKeyedAccounts" and x y
  assume "(scast i :: 64 word) < ka_len"
  then have "i \<noteq> - 1" by (rule loop_counter_not_max)
  then have "unat (i + 1) = Suc (unat i)" by (rule unat_loop_counter_Suc)
  moreover have "unat i < 2 ^ 32" using unsigned_less [of i] by simp
  ultimately show "((m, ka_len, i + 1, y, ka(sint i := x)), (m, ka_len, i, input, ka))
      \<in> measure (\<lambda>(m, ka_len, i, input, ka). 2 ^ 32 - unat i)"
    by simp
qed

definition sol_deserialize ::
  "mem \<Rightarrow> addr \<Rightarrow> 64 word \<Rightarrow> caller_state \<Rightarrow> bool \<times> caller_state" where
  "sol_deserialize m input ka_len s =
     (case ka_len_out s of
        None \<Rightarrow>
          if ka_len \<noteq> read_u64 m input then (False, s)
          else (let ka_len' = read_u64 m input;
                    (input', ka') = deserialize_loop m ka_len' 0 (input + 8) (ka_arr s)
                in (True, s\<lparr>ka_arr := ka', data := input' + 8, data_len := read_u64 m input'\<rparr>))
      | Some _ \<Rightarrow>
          (let ka_len' = (if ka_len > read_u64 m input then read_u64 m input else ka_len);
               (input', ka') = deserialize_loop m ka_len' 0 (input + 8) (ka_arr s)
           in (True, s\<lparr>ka_arr := ka', ka_len_out := Some ka_len',
                        data := input' + 8, data_len := read_u64 m input'\<rparr>)))"

declare deserialize_loop.simps [simp del]

section \<open>The wire format\<close>

text \<open>
  The positional layout of the spec's wire format, to be compared with what the loop
  computes: the buffer starts with the 8-byte count; an account is a 32-byte identity, an
  8-byte balance, an 8-byte data length, the data bytes and a 32-byte owner.
  \<open>account_start m input n\<close> is the address where account \<open>n\<close> begins (and, for \<open>n\<close>
  the number of accounts, where the instruction-data length is), \<open>view_at m a\<close> the
  view of the account that begins at \<open>a\<close>.
\<close>

fun account_start :: "mem \<Rightarrow> addr \<Rightarrow> nat \<Rightarrow> addr" where
  "account_start m input 0 = input + 8"
| "account_start m input (Suc n) =
     (let a = account_start m input n
      in a + 32 + 8 + 8 + read_u64 m (a + 32 + 8) + 32)"

definition view_at :: "mem \<Rightarrow> addr \<Rightarrow> SolKeyedAccounts" where
  "view_at m a =
     \<lparr>key = a, tokens = a + 32, userdata_len = read_u64 m (a + 40),
      userdata = a + 48, program_id = a + 48 + read_u64 m (a + 40)\<rparr>"

text \<open>
  The same layout as offsets from the start of the buffer, counted in \<open>nat\<close> so that
  they can be compared with the buffer's size.
\<close>

fun account_offset :: "mem \<Rightarrow> addr \<Rightarrow> nat \<Rightarrow> nat" where
  "account_offset m input 0 = 8"
| "account_offset m input (Suc n) =
     (let off = account_offset m input n
      in off + 32 + 8 + 8 + unat (read_u64 m (input + of_nat off + 40)) + 32)"

text \<open>
  A buffer of \<open>sz\<close> bytes at \<open>input\<close> is valid when it lies in the address space
  without wrapping and the structure it declares (the count, that many accounts, the
  instruction-data length and that many instruction bytes) ends inside it.
\<close>

definition frame_end :: "mem \<Rightarrow> addr \<Rightarrow> nat" where
  "frame_end m input =
     (let off = account_offset m input (unat (read_u64 m input))
      in off + 8 + unat (read_u64 m (input + of_nat off)))"

definition valid_buffer :: "mem \<Rightarrow> addr \<Rightarrow> nat \<Rightarrow> bool" where
  "valid_buffer m input sz \<longleftrightarrow> unat input + sz \<le> 2 ^ 64 \<and> frame_end m input \<le> sz"

text \<open>The number of accounts the loop is asked to decode in each mode.\<close>

definition decoded_count :: "mem \<Rightarrow> addr \<Rightarrow> 64 word \<Rightarrow> caller_state \<Rightarrow> 64 word" where
  "decoded_count m input ka_len s =
     (case ka_len_out s of None \<Rightarrow> ka_len | Some _ \<Rightarrow> min ka_len (read_u64 m input))"

section \<open>The host's side of the wire format\<close>

text \<open>
  Modelled from the spec: the host's serializer, which is not among the sources. It
  writes a list of accounts and the instruction data in the layout of section 6, every
  integer as eight little-endian bytes. It is used to build the example buffers only.
  \<open>mem_of_bytes base bs\<close> is a memory that holds the bytes \<open>bs\<close> from address
  \<open>base\<close> on and zero elsewhere.
\<close>

definition le_u64 :: "64 word \<Rightarrow> 8 word list" where
  "le_u64 w = map (\<lambda>k. ucast (drop_bit (8 * k) w)) [0..<8]"

record account =
  acct_key :: "8 word list"
  acct_balance :: "64 word"
  acct_data :: "8 word list"
  acct_owner :: "8 word list"

definition serialize_account :: "account \<Rightarrow> 8 word list" where
  "serialize_account a =
     acct_key a @ le_u64 (acct_balance a) @ le_u64 (of_nat (length (acct_data a)))
       @ acct_data a @ acct_owner a"

definition serialize_frame :: "account list \<Rightarrow> 8 word list \<Rightarrow> 8 word list" where
  "serialize_frame accts idata =
     le_u64 (of_nat (length accts)) @ concat (map serialize_account accts)
       @ le_u64 (of_nat (length idata)) @ idata"

definition mem_of_bytes :: "addr \<Rightarrow> 8 word list \<Rightarrow> mem" where
  "mem_of_bytes base bs =
     (\<lambda>a. if unat (a - base) < length bs then bs ! unat (a - base) else 0)"

text \<open>
  A frame of four accounts with the one-byte instruction \<open>[op]\<close>, written at address
  4096; and a caller whose array and output cells are zeroed.
\<close>

definition example_account :: "8 word \<Rightarrow> 64 word \<Rightarrow> 8 word list \<Rightarrow> account" where
  "example_account k b d =
     \<lparr>acct_key = replicate 32 k, acct_balance = b, acct_data = d, acct_owner = replicate 32 9\<rparr>"

definition example_accounts :: "account list" where
  "example_accounts =
     [example_account 1 10 [5], example_account 2 20 [6, 7],
      example_account 3 30 [8], example_account 4 40 [8]]"

definition example_mem :: "8 word \<Rightarrow> mem" where
  "example_mem op = mem_of_bytes 4096 (serialize_frame example_accounts [op])"

definition example_state :: caller_state where
  "example_state =
     \<lparr>ka_arr = (\<lambda>_. \<lparr>key = 0, tokens = 0, userdata_len = 0, userdata = 0, program_id = 0\<rparr>),
      ka_len_out = None, data = 0, data_len = 0\<rparr>"

section \<open>The duplicate-accounts program (dup\_accounts.c)\<close>

text \<open>
  The program is compiled against the header \<open>solana_sdk.h\<close>, which is not among the
  sources: its three-argument \<open>sol_deserialize\<close>, the types \<open>SolAccountInfo\<close> and
  \<open>SolParameters\<close> and the status codes are parameters of the model. Of the two types
  only the fields the program uses are declared: the pointers \<open>ka[i].lamports\<close> and
  \<open>ka[i].data\<close>, and \<open>params.data\<close>. The deserializer returns \<open>None\<close> where the C
  function returns false.
\<close>

record SolAccountInfo =
  info_lamports :: addr
  info_data :: addr

record SolParameters =
  params_ka :: "nat \<Rightarrow> SolAccountInfo"
  params_data :: addr

record solana_sdk =
  sdk_deserialize :: "mem \<Rightarrow> addr \<Rightarrow> 64 word \<Rightarrow> SolParameters option"
  SUCCESS :: "64 word"
  ERROR_INVALID_ARGUMENT :: "64 word"
  ERROR_INVALID_INSTRUCTION_DATA :: "64 word"

text \<open>
  The program's state: the memory it shares with the host and the messages it has logged.
\<close>

record machine =
  memory :: mem
  logged :: "string list"

text \<open>
  Modelled from the spec: \<open>sol_log\<close> of the missing header, the logging primitive of
  section 6 (``an opaque diagnostic channel, not part of the data contract''): it
  records the message and leaves memory alone.
\<close>

definition sol_log :: "string \<Rightarrow> machine \<Rightarrow> machine" where
  "sol_log msg st = st\<lparr>logged := logged st @ [msg]\<rparr>"

text \<open>
  \<open>*(uint64_t *) p = v\<close>, eight little-endian bytes; \<open>p[0] = f (p[0])\<close> on a byte and
  \<open>*p = f ( *p)\<close> on a 64-bit balance, both wrapping.
\<close>

definition write_u64 :: "mem \<Rightarrow> addr \<Rightarrow> 64 word \<Rightarrow> mem" where
  "write_u64 m p v = (\<lambda>a. if unat (a - p) < 8 then le_u64 v ! unat (a - p) else m a)"

definition store_byte :: "addr \<Rightarrow> (8 word \<Rightarrow> 8 word) \<Rightarrow> machine \<Rightarrow> machine" where
  "store_byte p f st = st\<lparr>memory := (memory st)(p := f (memory st p))\<rparr>"

definition store_lamports :: "addr \<Rightarrow> (64 word \<Rightarrow> 64 word) \<Rightarrow> machine \<Rightarrow> machine" where
  "store_lamports p f st = st\<lparr>memory := write_u64 (memory st) p (f (read_u64 (memory st) p))\<rparr>"

text \<open>
  \<open>entrypoint\<close>: \<open>ka\<close> has \<open>SOL_ARRAY_SIZE(ka) = 4\<close> entries; the \<open>switch\<close> is on the
  byte \<open>params.data[0]\<close>.
\<close>

definition entrypoint :: "solana_sdk \<Rightarrow> addr \<Rightarrow> machine \<Rightarrow> 64 word \<times> machine" where
  "entrypoint sdk input st =
     (case sdk_deserialize sdk (memory st) input 4 of
        None \<Rightarrow> (ERROR_INVALID_ARGUMENT sdk, st)
      | Some params \<Rightarrow>
          (let ka = params_ka params;
               op = memory st (params_data params)
           in if op = 1 then
                (SUCCESS sdk,
                 store_byte (info_data (ka 2)) (\<lambda>_. 1) (sol_log ''modify first account data'' st))
              else if op = 2 then
                (SUCCESS sdk,
                 store_byte (info_data (ka 3)) (\<lambda>_. 2) (sol_log ''modify first account data'' st))
              else if op = 3 then
                (SUCCESS sdk,
                 store_byte (info_data (ka 3)) (\<lambda>b. b + 2)
                   (store_byte (info_data (ka 2)) (\<lambda>b. b + 1)
                      (sol_log ''modify both account data'' st)))
              else if op = 4 then
                (SUCCESS sdk,
                 store_lamports (info_lamports (ka 2)) (\<lambda>l. l + 1)
                   (store_lamports (info_lamports (ka 1)) (\<lambda>l. l - 1)
                      (sol_log ''modify first account lamports'' st)))
              else if op = 5 then
                (SUCCESS sdk,
                 store_lamports (info_lamports (ka 3)) (\<lambda>l. l + 2)
                   (store_lamports (info_lamports (ka 1)) (\<lambda>l. l - 2)
                      (sol_log ''modify first account lamports'' st)))
              else if op = 6 then
                (SUCCESS sdk,
                 store_lamports (info_lamports (ka 3)) (\<lambda>l. l + 2)
                   (store_lamports (info_lamports (ka 2)) (\<lambda>l. l + 1)
                      (store_lamports (info_lamports (ka 1)) (\<lambda>l. l - 3)
                         (sol_log ''modify both account lamports'' st))))
              else
                (ERROR_INVALID_INSTRUCTION_DATA sdk, sol_log ''Unrecognized command'' st)))"

text \<open>
  An instance of the missing header, for the examples: the decoder of \<open>sol_bpf.h\<close> in
  exact mode behind the three-argument interface, with \<open>tokens\<close> and \<open>userdata\<close> as
  the pointers \<open>lamports\<close> and \<open>data\<close>, and status codes 0, 1 and 2.
\<close>

definition sol_bpf_sdk :: solana_sdk where
  "sol_bpf_sdk =
     \<lparr>sdk_deserialize =
        (\<lambda>m input n.
           case sol_deserialize m input n example_state of
             (ok, s') \<Rightarrow>
               if ok
               then Some \<lparr>params_ka =
                            (\<lambda>i. \<lparr>info_lamports = tokens (ka_arr s' (int i)),
                                    info_data = userdata (ka_arr s' (int i))\<rparr>),
                          params_data = data s'\<rparr>
               else None),
      SUCCESS = 0, ERROR_INVALID_ARGUMENT = 1, ERROR_INVALID_INSTRUCTION_DATA = 2\<rparr>"



section \<open>The privilege model\<close>

text \<open>
  Modelled from the spec: the validation of a nested call, which is not among the
  sources (\<open>instruction.h\<close> only names the test scenarios). Section 4.2: a frame holds,
  per account identity, whether it was granted signer and writable authority; an
  account it does not hold is \<open>NoAccess\<close>.
\<close>

datatype error = DecodeError | PrivilegeViolation | IntegrityViolation | ProgramError "64 word"

record grant =
  signer :: bool
  writable :: bool

type_synonym identity = "8 word list"
type_synonym frame_grants = "identity \<Rightarrow> grant option"

text \<open>
  Modelled from the spec: whether a requested grant \<open>g\<close> is allowed against the grant
  \<open>h\<close> the caller holds for the same identity. ``A callee's requested grant for an
  account must be a subset of (or equal to) the grant the caller held''; and (nested
  signer derivation) ``a program may cause an account to appear as signer in a nested
  call only if it is itself a signer for that account, or if the account's authority
  was derived via a program-controlled derivation scheme the caller is entitled to
  assert''. The derivation scheme is an external capability (section 9): \<open>derived\<close>
  says whether the caller is entitled to assert signer authority for the account.
  Writable authority has no such path.
\<close>

definition request_allowed :: "grant \<Rightarrow> bool \<Rightarrow> grant \<Rightarrow> bool" where
  "request_allowed h derived g \<longleftrightarrow>
     (signer g \<longrightarrow> signer h \<or> derived) \<and> (writable g \<longrightarrow> writable h)"

text \<open>
  Modelled from the spec: the grant a callee's frame holds for an identity (section
  4.2). The spec does not say what it is when a request lists the identity more than
  once; here the callee is granted every flag that some listing of it was allowed, so
  that no listing is dropped.
\<close>

definition join_grant :: "grant \<Rightarrow> grant option \<Rightarrow> grant" where
  "join_grant g old =
     (case old of
        None \<Rightarrow> g
      | Some g' \<Rightarrow> \<lparr>signer = signer g \<or> signer g', writable = writable g \<or> writable g'\<rparr>)"

text \<open>
  Modelled from the spec: one call boundary. \<open>derived\<close> lists the identities for which
  the caller is entitled to assert derived signer authority in this call; the request
  lists the callee's accounts with the grants it asks for. Every listing must be
  allowed, else the call is rejected with \<open>PrivilegeViolation\<close>; the callee's frame
  holds the requested grants.
\<close>

fun validate_call ::
  "frame_grants \<Rightarrow> identity list \<Rightarrow> (identity \<times> grant) list \<Rightarrow> error + frame_grants" where
  "validate_call caller derived [] = Inr Map.empty"
| "validate_call caller derived ((k, g) # rest) =
     (case caller k of
        None \<Rightarrow> Inl PrivilegeViolation
      | Some h \<Rightarrow>
          if request_allowed h (k \<in> set derived) g
          then (case validate_call caller derived rest of
                  Inl e \<Rightarrow> Inl e
                | Inr f \<Rightarrow> Inr (f(k \<mapsto> join_grant g (f k))))
          else Inl PrivilegeViolation)"

text \<open>
  Modelled from the spec: a chain of nested calls, each validated against the frame the
  previous call produced; the first violation aborts the chain.
\<close>

fun nested_calls ::
  "frame_grants \<Rightarrow> (identity list \<times> (identity \<times> grant) list) list \<Rightarrow> error + frame_grants" where
  "nested_calls f [] = Inr f"
| "nested_calls f ((derived, req) # calls) =
     (case validate_call f derived req of
        Inl e \<Rightarrow> Inl e
      | Inr f' \<Rightarrow> nested_calls f' calls)"

text \<open>An outermost frame for the examples.\<close>

definition example_outer :: frame_grants where
  "example_outer =
     [[1] \<mapsto> \<lparr>signer = True, writable = True\<rparr>, [2] \<mapsto> \<lparr>signer = False, writable = False\<rparr>]"

section \<open>The loop computes the layout\<close>

lemma decode_account_layout:
  "decode_account m (account_start m input n) =
     (view_at m (account_start m input n), account_start m input (Suc n))"
  by (simp add: decode_account_def view_at_def Let_def add.assoc)

lemma sint_small: "k < 2 ^ 31 \<Longrightarrow> sint (of_nat k :: 32 word) = int k"
  by (simp add: signed_of_nat signed_take_bit_int_eq_self)

lemma scast_small: "k < 2 ^ 31 \<Longrightarrow> (scast (of_nat k :: 32 word) :: 64 word) = of_nat k"
  by (simp add: signed_of_nat signed_take_bit_int_eq_self)

lemma deserialize_loop_layout:
  assumes "unat ka_len < 2 ^ 31" and "i0 \<le> unat ka_len"
  shows "deserialize_loop m ka_len (of_nat i0) (account_start m input i0) ka =
     (account_start m input (unat ka_len),
      (\<lambda>j. if int i0 \<le> j \<and> j < int (unat ka_len)
           then view_at m (account_start m input (nat j)) else ka j))"
  using assms
proof (induction "unat ka_len - i0" arbitrary: i0 ka)
  case 0
  then have eq: "i0 = unat ka_len" by simp
  have "(scast (of_nat i0 :: 32 word) :: 64 word) = ka_len"
    using 0 scast_small [of "unat ka_len"] by (simp add: eq)
  then show ?case
    by (subst deserialize_loop.simps) (auto simp: eq fun_eq_iff)
next
  case (Suc d)
  then have lt: "i0 < unat ka_len" and small: "i0 < 2 ^ 31" by simp_all
  have lt': "int i0 < uint ka_len"
    using lt by (metis of_nat_less_iff of_nat_unat)
  have c: "(scast (of_nat i0 :: 32 word) :: 64 word) < ka_len"
    using lt small by (simp add: scast_small word_less_nat_alt unat_of_nat)
  have step: "deserialize_loop m ka_len (of_nat (Suc i0)) (account_start m input (Suc i0))
       (ka(int i0 := view_at m (account_start m input i0))) =
     (account_start m input (unat ka_len),
      (\<lambda>j. if int (Suc i0) \<le> j \<and> j < int (unat ka_len)
           then view_at m (account_start m input (nat j))
           else (ka(int i0 := view_at m (account_start m input i0))) j))"
    using Suc by (intro Suc.hyps(1)) simp_all
  have "deserialize_loop m ka_len (of_nat i0) (account_start m input i0) ka =
     deserialize_loop m ka_len (of_nat (Suc i0)) (account_start m input (Suc i0))
       (ka(int i0 := view_at m (account_start m input i0)))"
    using c small
    by (subst deserialize_loop.simps)
       (simp add: decode_account_layout sint_small add.commute del: account_start.simps)
  also note step
  finally show ?case
    using lt' by (auto simp: fun_eq_iff intro!: arg_cong [where f = "view_at m"]
        arg_cong [where f = "account_start m input"])
qed

lemma deserialize_loop_from_start:
  assumes "unat n < 2 ^ 31"
  shows "deserialize_loop m n 0 (input + 8) ka =
     (account_start m input (unat n),
      (\<lambda>j. if 0 \<le> j \<and> j < int (unat n)
           then view_at m (account_start m input (nat j)) else ka j))"
  using deserialize_loop_layout [OF assms, of 0 m input ka] by simp

lemma account_start_offset:
  "account_start m input n = input + of_nat (account_offset m input n)"
  by (induction n) (simp_all add: Let_def add.assoc)

lemma account_offset_step: "account_offset m input n + 80 \<le> account_offset m input (Suc n)"
  by (simp add: Let_def)

lemma account_offset_mono: "i \<le> j \<Longrightarrow> account_offset m input i \<le> account_offset m input j"
  by (induction j) (auto simp: Let_def le_Suc_eq)

lemma account_offset_strict:
  "i < j \<Longrightarrow> account_offset m input (Suc i) \<le> account_offset m input j"
  using account_offset_mono [of "Suc i" j m input] by simp

lemma sol_deserialize_layout:
  assumes "unat (decoded_count m input ka_len s) < 2 ^ 31"
    and "fst (sol_deserialize m input ka_len s)"
  shows "sol_deserialize m input ka_len s =
    (True, s\<lparr>ka_arr := (\<lambda>j. if 0 \<le> j \<and> j < int (unat (decoded_count m input ka_len s))
                  then view_at m (account_start m input (nat j)) else ka_arr s j),
             ka_len_out := map_option (\<lambda>_. decoded_count m input ka_len s) (ka_len_out s),
             data := account_start m input (unat (decoded_count m input ka_len s)) + 8,
             data_len := read_u64 m (account_start m input (unat (decoded_count m input ka_len s)))\<rparr>)"
proof (cases "ka_len_out s")
  case None
  with assms show ?thesis
    by (auto simp: sol_deserialize_def decoded_count_def deserialize_loop_from_start
        simp del: account_start.simps split: if_splits)
next
  case (Some c)
  have m: "(if read_u64 m input < ka_len then read_u64 m input else ka_len) = min ka_len (read_u64 m input)"
    by (auto simp: min_def)
  from Some assms show ?thesis
    by (simp add: sol_deserialize_def decoded_count_def m deserialize_loop_from_start Let_def
        del: account_start.simps)
qed

lemma int_less_uint_iff: "int i < uint w \<longleftrightarrow> i < unat w"
  by (metis of_nat_less_iff of_nat_unat)

lemma bounded_decoded_count [simp]:
  "decoded_count m input ka_len (s\<lparr>ka_len_out := Some c\<rparr>) = min ka_len (read_u64 m input)"
  by (simp add: decoded_count_def)

lemma bounded_mode_succeeds:
  "fst (sol_deserialize m input ka_len (s\<lparr>ka_len_out := Some c\<rparr>))"
  by (simp add: sol_deserialize_def Let_def split: prod.splits)

lemma bounded_mode_layout:
  assumes "unat (min ka_len (read_u64 m input)) < 2 ^ 31"
  shows "sol_deserialize m input ka_len (s\<lparr>ka_len_out := Some c\<rparr>) =
    (True, s\<lparr>ka_arr := (\<lambda>j. if 0 \<le> j \<and> j < int (unat (min ka_len (read_u64 m input)))
                  then view_at m (account_start m input (nat j)) else ka_arr s j),
             ka_len_out := Some (min ka_len (read_u64 m input)),
             data := account_start m input (unat (min ka_len (read_u64 m input))) + 8,
             data_len := read_u64 m (account_start m input (unat (min ka_len (read_u64 m input))))\<rparr>)"
proof -
  have m: "(if read_u64 m input < ka_len then read_u64 m input else ka_len) = min ka_len (read_u64 m input)"
    by (auto simp: min_def)
  from assms show ?thesis
    by (simp add: sol_deserialize_def m deserialize_loop_from_start Let_def
        del: account_start.simps)
qed

lemma offset_address_distinct:
  fixes input :: addr
  assumes "a < b" and "b < 2 ^ 64"
  shows "input + of_nat a \<noteq> input + of_nat b"
proof
  assume "input + of_nat a = input + of_nat b"
  then have "(of_nat a :: 64 word) = of_nat b" by simp
  then have "take_bit 64 a = take_bit 64 b" by (simp add: word_of_nat_eq_iff)
  moreover have "take_bit 64 a = a" "take_bit 64 b = b"
    using assms by (simp_all add: take_bit_nat_eq_self)
  ultimately show False using assms by simp
qed

lemma valid_buffer_accounts_inside:
  assumes "valid_buffer m input sz" and "i \<le> unat (read_u64 m input)"
  shows "account_offset m input i + 8 \<le> sz"
proof -
  have "account_offset m input i \<le> account_offset m input (unat (read_u64 m input))"
    using assms(2) by (rule account_offset_mono)
  moreover have "account_offset m input (unat (read_u64 m input)) + 8 \<le> frame_end m input"
    by (simp add: frame_end_def Let_def)
  ultimately show ?thesis using assms(1) by (simp add: valid_buffer_def)
qed

lemma read_u64_fun_upd_other:
  assumes "\<forall>k<8. p + of_nat k \<noteq> a"
  shows "read_u64 (m(a := x)) p = read_u64 m p"
proof -
  have "p + of_nat k \<noteq> a" if "k < 8" for k :: nat using assms that by blast
  from this [of 0] this [of 1] this [of 2] this [of 3] this [of 4] this [of 5] this [of 6] this [of 7]
  show ?thesis by (simp add: read_u64_def)
qed









lemma validate_call_error: "validate_call caller derived req = Inl e \<Longrightarrow> e = PrivilegeViolation"
  by (induction req arbitrary: e) (auto split: option.splits if_splits sum.splits)

lemma validate_call_accepts:
  "validate_call caller derived req = Inr f \<Longrightarrow> f k = Some g \<Longrightarrow>
     \<exists>h. caller k = Some h \<and> request_allowed h (k \<in> set derived) g"
proof (induction req arbitrary: f g)
  case Nil
  then show ?case by auto
next
  case (Cons a req)
  obtain k' g' where a: "a = (k', g')" by (cases a)
  from Cons.prems(1) obtain h' f' where h': "caller k' = Some h'"
    and al: "request_allowed h' (k' \<in> set derived) g'"
    and r: "validate_call caller derived req = Inr f'"
    and f: "f = f'(k' \<mapsto> join_grant g' (f' k'))"
    unfolding a by (auto split: option.splits if_splits sum.splits)
  show ?case
  proof (cases "k = k'")
    case False
    with Cons.prems(2) f have "f' k = Some g" by simp
    from Cons.IH [OF r this] show ?thesis .
  next
    case True
    with Cons.prems(2) f have g: "g = join_grant g' (f' k')" by simp
    show ?thesis
    proof (cases "f' k'")
      case None
      with g al h' True show ?thesis by (simp add: join_grant_def)
    next
      case (Some g2)
      from Some True have "f' k = Some g2" by simp
      from Cons.IH [OF r this] h' True have "request_allowed h' (k' \<in> set derived) g2" by simp
      with g al h' True Some show ?thesis
        by (auto simp: join_grant_def request_allowed_def)
    qed
  qed
qed

lemma validate_call_complete:
  "\<forall>(k, g) \<in> set req. \<exists>h. caller k = Some h \<and> request_allowed h (k \<in> set derived) g \<Longrightarrow>
     \<not> isl (validate_call caller derived req)"
  by (induction req) (auto split: sum.splits)

lemma validate_call_listed:
  "validate_call caller derived req = Inr f \<Longrightarrow> (k, g) \<in> set req \<Longrightarrow>
     \<exists>h. caller k = Some h \<and> request_allowed h (k \<in> set derived) g"
  by (induction req arbitrary: f) (auto split: option.splits if_splits sum.splits)

lemma validate_call_rejects:
  assumes "(k, g) \<in> set req"
    and "\<forall>h. caller k = Some h \<longrightarrow> \<not> request_allowed h (k \<in> set derived) g"
  shows "validate_call caller derived req = Inl PrivilegeViolation"
proof (cases "validate_call caller derived req")
  case (Inl e)
  then show ?thesis using validate_call_error by blast
next
  case (Inr f)
  from validate_call_listed [OF this assms(1)] assms(2) show ?thesis by blast
qed

lemma nested_calls_ceiling:
  "nested_calls f0 calls = Inr f \<Longrightarrow> f k = Some g \<Longrightarrow>
     \<exists>g0. f0 k = Some g0 \<and> (writable g \<longrightarrow> writable g0) \<and>
       (signer g \<longrightarrow> signer g0 \<or> (\<exists>(d, r) \<in> set calls. k \<in> set d))"
proof (induction calls arbitrary: f0)
  case Nil
  then show ?case by simp
next
  case (Cons c calls)
  obtain d r where c: "c = (d, r)" by (cases c)
  from Cons.prems(1) obtain f1 where v: "validate_call f0 d r = Inr f1"
    and n: "nested_calls f1 calls = Inr f"
    unfolding c by (auto split: sum.splits)
  from Cons.IH [OF n Cons.prems(2)] obtain g1 where g1: "f1 k = Some g1"
    "writable g \<longrightarrow> writable g1"
    "signer g \<longrightarrow> signer g1 \<or> (\<exists>(d, r) \<in> set calls. k \<in> set d)"
    by blast
  from validate_call_accepts [OF v g1(1)] obtain g0 where g0: "f0 k = Some g0"
    "request_allowed g0 (k \<in> set d) g1" by blast
  show ?case
    using g0 g1 unfolding c by (auto simp: request_allowed_def)
qed

section \<open>The example buffer, evaluated\<close>

lemma example_bytes_length: "length (serialize_frame example_accounts [op]) = 342"
  by (simp add: serialize_frame_def serialize_account_def example_accounts_def
      example_account_def le_u64_def)

lemmas example_defs =
  example_mem_def mem_of_bytes_def serialize_frame_def serialize_account_def
  example_accounts_def example_account_def le_u64_def upt_rec word_rcat_def

lemma example_count: "read_u64 (example_mem op) 4096 = 4"
  by (simp add: read_u64_def example_defs)

lemma example_lens:
  "read_u64 (example_mem op) 4144 = 1"
  "read_u64 (example_mem op) 4225 = 2"
  "read_u64 (example_mem op) 4307 = 1"
  "read_u64 (example_mem op) 4388 = 1"
  "read_u64 (example_mem op) 4429 = 1"
  by (simp_all add: read_u64_def example_defs nth_append)

lemma account_offset_rec:
  "account_offset m input n =
     (if n = 0 then 8
      else account_offset m input (n - 1) + 48
        + unat (read_u64 m (input + of_nat (account_offset m input (n - 1)) + 40)) + 32)"
  by (cases n) (simp_all add: Let_def)

lemma example_offsets:
  "account_offset (example_mem op) 4096 0 = 8"
  "account_offset (example_mem op) 4096 1 = 89"
  "account_offset (example_mem op) 4096 2 = 171"
  "account_offset (example_mem op) 4096 3 = 252"
  "account_offset (example_mem op) 4096 4 = 333"
proof -
  show o0: "account_offset (example_mem op) 4096 0 = 8" by simp
  show o1: "account_offset (example_mem op) 4096 1 = 89"
    by (subst account_offset_rec) (simp add: o0 example_lens)
  show o2: "account_offset (example_mem op) 4096 2 = 171"
    by (subst account_offset_rec) (simp add: o1 example_lens)
  show o3: "account_offset (example_mem op) 4096 3 = 252"
    by (subst account_offset_rec) (simp add: o2 example_lens)
  show "account_offset (example_mem op) 4096 4 = 333"
    by (subst account_offset_rec) (simp add: o3 example_lens)
qed

lemma example_frame_end: "frame_end (example_mem op) 4096 = 342"
  by (simp add: frame_end_def example_count example_offsets example_lens)

lemma example_valid: "valid_buffer (example_mem op) 4096 342"
  by (simp add: valid_buffer_def example_frame_end)

lemma exact_mode_accepts:
  "ka_len_out s = None \<Longrightarrow> ka_len = read_u64 m input \<Longrightarrow>
     sol_deserialize m input ka_len s = (True, snd (sol_deserialize m input ka_len s))"
  by (simp add: sol_deserialize_def split: prod.splits)

lemma example_starts:
  "account_start (example_mem op) 4096 0 = 4104"
  "account_start (example_mem op) 4096 1 = 4185"
  "account_start (example_mem op) 4096 2 = 4267"
  "account_start (example_mem op) 4096 3 = 4348"
  "account_start (example_mem op) 4096 4 = 4429"
  by (simp_all add: account_start_offset example_offsets example_offsets(2) [unfolded One_nat_def]
      del: account_start.simps account_offset.simps)

lemma example_decode:
  "sol_deserialize (example_mem op) 4096 4 example_state =
     (True, example_state
        \<lparr>ka_arr := (\<lambda>j. if 0 \<le> j \<and> j < 4
                      then view_at (example_mem op) (account_start (example_mem op) 4096 (nat j))
                      else ka_arr example_state j),
         data := 4437, data_len := 1\<rparr>)"
proof -
  have none: "ka_len_out example_state = None" by (simp add: example_state_def)
  have n: "decoded_count (example_mem op) 4096 4 example_state = 4"
    by (simp add: decoded_count_def none)
  have ok: "fst (sol_deserialize (example_mem op) 4096 4 example_state)"
    using exact_mode_accepts [OF none, of 4 "example_mem op" 4096]
    by (simp add: example_count) (metis fst_conv)
  have small: "unat (decoded_count (example_mem op) 4096 4 example_state) < 2 ^ 31"
    by (simp add: n)
  show ?thesis
    unfolding sol_deserialize_layout [OF small ok] n
    by (simp add: example_starts example_lens none del: account_start.simps)
qed

lemma example_views:
  "userdata (ka_arr (snd (sol_deserialize (example_mem op) 4096 4 example_state)) 2) = 4315"
  "userdata (ka_arr (snd (sol_deserialize (example_mem op) 4096 4 example_state)) 3) = 4396"
  "tokens (ka_arr (snd (sol_deserialize (example_mem op) 4096 4 example_state)) 2) = 4299"
  "tokens (ka_arr (snd (sol_deserialize (example_mem op) 4096 4 example_state)) 3) = 4380"
  "data (snd (sol_deserialize (example_mem op) 4096 4 example_state)) = 4437"
  by (simp_all add: example_decode view_at_def example_starts del: account_start.simps)

lemma example_bytes:
  "example_mem op 4437 = op"
  "example_mem op 4315 = 8"
  "example_mem op 4396 = 8"
  by (simp_all add: example_defs nth_append)

lemma example_sdk_decode:
  "sdk_deserialize sol_bpf_sdk (example_mem op) 4096 4 =
     Some \<lparr>params_ka =
             (\<lambda>i. \<lparr>info_lamports =
                      tokens (ka_arr (snd (sol_deserialize (example_mem op) 4096 4 example_state)) (int i)),
                    info_data =
                      userdata (ka_arr (snd (sol_deserialize (example_mem op) 4096 4 example_state)) (int i))\<rparr>),
           params_data = 4437\<rparr>"
  by (simp add: sol_bpf_sdk_def example_decode)

lemma sol_bpf_sdk_codes:
  "SUCCESS sol_bpf_sdk = 0"
  "ERROR_INVALID_ARGUMENT sol_bpf_sdk = 1"
  "ERROR_INVALID_INSTRUCTION_DATA sol_bpf_sdk = 2"
  by (simp_all add: sol_bpf_sdk_def)







section \<open>Exact mode\<close>

text \<open>
  Claim C1. With \<open>ka_len_out = NULL\<close>, \<open>sol_deserialize\<close> returns true exactly when
  \<open>ka_len\<close> equals the count in the first eight bytes of the buffer, for every memory
  and every input address; when they differ it returns false and has written nothing
  (no entry of \<open>ka\<close>, neither output cell), so the mismatch is found before any
  account is decoded.
\<close>

theorem exact_mode_count_check:
  "fst (sol_deserialize m input ka_len (s\<lparr>ka_len_out := None\<rparr>)) = (ka_len = read_u64 m input) \<and>
   (ka_len \<noteq> read_u64 m input \<longrightarrow>
      sol_deserialize m input ka_len (s\<lparr>ka_len_out := None\<rparr>) = (False, s\<lparr>ka_len_out := None\<rparr>))"
  by (simp add: sol_deserialize_def split: prod.splits)

theorem exact_mode_count_check_witness:
  "(3 :: 64 word) \<noteq> read_u64 (example_mem 1) 4096 \<and>
   sol_deserialize (example_mem 1) 4096 3 (example_state\<lparr>ka_len_out := None\<rparr>) =
     (False, example_state\<lparr>ka_len_out := None\<rparr>) \<and>
   fst (sol_deserialize (example_mem 1) 4096 4 (example_state\<lparr>ka_len_out := None\<rparr>))"
  using exact_mode_count_check [of "example_mem 1" 4096 3 example_state]
    exact_mode_count_check [of "example_mem 1" 4096 4 example_state]
  by (simp add: example_count)

section \<open>Bounded mode\<close>

text \<open>
  Claim C2. With \<open>ka_len_out\<close> given, on a valid buffer \<open>sol_deserialize\<close> returns
  true and stores in \<open>*ka_len_out\<close> the minimum \<open>n\<close> of the capacity \<open>ka_len\<close> and the
  declared count: the declared count when the capacity is at least that, the capacity
  when it is smaller (truncation, no failure). Exactly the entries \<open>0 .. n - 1\<close> of
  \<open>ka\<close> are written, entry \<open>i\<close> being the view of account \<open>i\<close> of the buffer, which
  ends inside the buffer; every other entry is left as it was. The loop index is a C
  \<open>int\<close>, so the statement is for \<open>n \<le> INT_MAX\<close>.
\<close>

theorem bounded_mode_count:
  assumes "valid_buffer m input sz"
    and "n = min ka_len (read_u64 m input)"
    and "unat n < 2 ^ 31"
  shows "\<exists>s'. sol_deserialize m input ka_len (s\<lparr>ka_len_out := Some c\<rparr>) = (True, s') \<and>
    ka_len_out s' = Some n \<and>
    (read_u64 m input \<le> ka_len \<longrightarrow> ka_len_out s' = Some (read_u64 m input)) \<and>
    (ka_len < read_u64 m input \<longrightarrow> ka_len_out s' = Some ka_len) \<and>
    (\<forall>i. 0 \<le> i \<and> i < uint n \<longrightarrow>
        ka_arr s' i = view_at m (account_start m input (nat i)) \<and>
        account_offset m input (Suc (nat i)) \<le> sz) \<and>
    (\<forall>i. i < 0 \<or> uint n \<le> i \<longrightarrow> ka_arr s' i = ka_arr s i)"
proof -
  have small: "unat (min ka_len (read_u64 m input)) < 2 ^ 31" using assms by simp
  have inside: "account_offset m input (Suc (nat i)) \<le> sz" if "0 \<le> i" "i < uint n" for i
  proof -
    have "nat i < unat n" using that by (simp add: nat_less_iff)
    moreover have "unat n \<le> unat (read_u64 m input)"
      using assms(2) by (simp add: word_le_nat_alt [symmetric])
    ultimately have "Suc (nat i) \<le> unat (read_u64 m input)" by simp
    from valid_buffer_accounts_inside [OF assms(1) this] show ?thesis by simp
  qed
  define s' where "s' = snd (sol_deserialize m input ka_len (s\<lparr>ka_len_out := Some c\<rparr>))"
  have r: "sol_deserialize m input ka_len (s\<lparr>ka_len_out := Some c\<rparr>) = (True, s')"
    unfolding s'_def by (simp add: bounded_mode_layout [OF small])
  have out: "ka_len_out s' = Some n"
    unfolding s'_def by (simp add: bounded_mode_layout [OF small] assms(2))
  have ge: "n = read_u64 m input" if "read_u64 m input \<le> ka_len"
    using that assms(2) by (simp add: min_absorb2)
  have lt: "n = ka_len" if "ka_len < read_u64 m input"
    using that assms(2) by (simp add: min_absorb1)
  have v: "ka_arr s' i = view_at m (account_start m input (nat i))" if "0 \<le> i" "i < uint n" for i
    unfolding s'_def using that by (simp add: bounded_mode_layout [OF small] assms(2))
  have u: "ka_arr s' i = ka_arr s i" if "i < 0 \<or> uint n \<le> i" for i
    unfolding s'_def using that by (auto simp: bounded_mode_layout [OF small] assms(2))
  show ?thesis
  proof (intro exI [of _ s'] conjI allI impI)
    show "sol_deserialize m input ka_len (s\<lparr>ka_len_out := Some c\<rparr>) = (True, s')" by (rule r)
    show "ka_len_out s' = Some n" by (rule out)
    show "ka_len_out s' = Some (read_u64 m input)" if "read_u64 m input \<le> ka_len"
      using out ge [OF that] by simp
    show "ka_len_out s' = Some ka_len" if "ka_len < read_u64 m input"
      using out lt [OF that] by simp
    show "ka_arr s' i = view_at m (account_start m input (nat i))" if "0 \<le> i \<and> i < uint n" for i
      using that v by blast
    show "account_offset m input (Suc (nat i)) \<le> sz" if "0 \<le> i \<and> i < uint n" for i
      using that inside by blast
    show "ka_arr s' i = ka_arr s i" if "i < 0 \<or> uint n \<le> i" for i
      using that by (rule u)
  qed
qed

theorem bounded_mode_count_witness:
  "valid_buffer (example_mem 1) 4096 342 \<and>
   unat (min 2 (read_u64 (example_mem 1) 4096)) < 2 ^ 31 \<and>
   (\<exists>s'. sol_deserialize (example_mem 1) 4096 2 (example_state\<lparr>ka_len_out := Some 0\<rparr>) = (True, s') \<and>
      ka_len_out s' = Some 2)"
proof -
  have n: "min 2 (read_u64 (example_mem 1) 4096) = 2" by (simp add: example_count)
  have small: "unat (min 2 (read_u64 (example_mem 1) 4096)) < 2 ^ 31" by (simp add: n)
  from bounded_mode_count [OF example_valid refl small, where s = example_state and c = 0]
  show ?thesis using example_valid small unfolding n by blast
qed

text \<open>
  Claim C9. With \<open>ka_len_out\<close> given, \<open>sol_deserialize\<close> returns true for every memory,
  input address and capacity: there is no failing branch, and no read is compared with
  a buffer size. So when the structure the buffer declares ends beyond its \<open>sz\<close> bytes
  (and the capacity admits the declared count), decoding still succeeds and the
  instruction data it reports ends beyond the buffer's end.
\<close>

theorem bounded_mode_never_fails:
  "fst (sol_deserialize m input ka_len (s\<lparr>ka_len_out := Some c\<rparr>)) \<and>
   (sz < frame_end m input \<and> read_u64 m input \<le> ka_len \<and> unat (read_u64 m input) < 2 ^ 31 \<longrightarrow>
      data (snd (sol_deserialize m input ka_len (s\<lparr>ka_len_out := Some c\<rparr>))) =
        input + of_nat (account_offset m input (unat (read_u64 m input)) + 8) \<and>
      sz < account_offset m input (unat (read_u64 m input)) + 8 +
        unat (data_len (snd (sol_deserialize m input ka_len (s\<lparr>ka_len_out := Some c\<rparr>)))))"
proof (intro conjI impI)
  show "fst (sol_deserialize m input ka_len (s\<lparr>ka_len_out := Some c\<rparr>))"
    by (rule bounded_mode_succeeds)
next
  assume a: "sz < frame_end m input \<and> read_u64 m input \<le> ka_len \<and> unat (read_u64 m input) < 2 ^ 31"
  then have n: "min ka_len (read_u64 m input) = read_u64 m input" by (simp add: min_absorb2)
  have small: "unat (min ka_len (read_u64 m input)) < 2 ^ 31" using a n by simp
  show "data (snd (sol_deserialize m input ka_len (s\<lparr>ka_len_out := Some c\<rparr>))) =
        input + of_nat (account_offset m input (unat (read_u64 m input)) + 8)"
    by (simp add: bounded_mode_layout [OF small] n account_start_offset)
  show "sz < account_offset m input (unat (read_u64 m input)) + 8 +
        unat (data_len (snd (sol_deserialize m input ka_len (s\<lparr>ka_len_out := Some c\<rparr>))))"
    using a by (simp add: bounded_mode_layout [OF small] n account_start_offset frame_end_def Let_def)
qed

theorem bounded_mode_never_fails_witness:
  "(100 :: nat) < frame_end (example_mem 1) 4096 \<and>
   read_u64 (example_mem 1) 4096 \<le> 4 \<and>
   unat (read_u64 (example_mem 1) 4096) < 2 ^ 31 \<and>
   fst (sol_deserialize (example_mem 1) 4096 4 (example_state\<lparr>ka_len_out := Some 0\<rparr>)) \<and>
   data (snd (sol_deserialize (example_mem 1) 4096 4 (example_state\<lparr>ka_len_out := Some 0\<rparr>))) = 4437"
  using bounded_mode_never_fails
    [where m = "example_mem 1" and input = 4096 and ka_len = 4 and s = example_state and c = 0
       and sz = 100]
  by (simp add: example_count example_frame_end example_offsets)

text \<open>
  Claim C10. When the capacity is smaller than the declared count, the instruction-data
  length is read from the eight bytes at the start of account number \<open>ka_len\<close>, the
  first account that is not decoded, and the instruction-data pointer is the address
  eight bytes into that account: both lie in its 32-byte identity, before the trailing
  instruction-data region, which begins only after all declared accounts; the pointer
  differs from the one to the trailing instruction data.
\<close>

theorem truncation_reads_next_account:
  assumes "valid_buffer m input sz"
    and "ka_len < read_u64 m input"
    and "unat ka_len < 2 ^ 31"
    and "k = unat ka_len"
    and "s' = snd (sol_deserialize m input ka_len (s\<lparr>ka_len_out := Some c\<rparr>))"
  shows "data_len s' = read_u64 m (input + of_nat (account_offset m input k)) \<and>
    data s' = input + of_nat (account_offset m input k) + 8 \<and>
    account_offset m input k + 32 \<le> account_offset m input (Suc k) \<and>
    account_offset m input (Suc k) \<le> account_offset m input (unat (read_u64 m input)) \<and>
    data s' \<noteq> input + of_nat (account_offset m input (unat (read_u64 m input))) + 8"
proof -
  have n: "min ka_len (read_u64 m input) = ka_len" using assms(2) by (simp add: min_absorb1)
  have small: "unat (min ka_len (read_u64 m input)) < 2 ^ 31" using assms(3) n by simp
  have lt: "k < unat (read_u64 m input)" using assms(2,4) by (simp add: word_less_nat_alt)
  have d: "data_len s' = read_u64 m (input + of_nat (account_offset m input k))"
    "data s' = input + of_nat (account_offset m input k) + 8"
    unfolding assms(4,5) by (simp_all add: bounded_mode_layout [OF small] n account_start_offset)
  have a: "account_offset m input k + 32 \<le> account_offset m input (Suc k)"
    using account_offset_step [of m input k] by simp
  have b: "account_offset m input (Suc k) \<le> account_offset m input (unat (read_u64 m input))"
    using lt by (rule account_offset_strict)
  have "account_offset m input (unat (read_u64 m input)) + 8 \<le> sz"
    using valid_buffer_accounts_inside [OF assms(1)] by simp
  moreover have "sz \<le> 2 ^ 64" using assms(1) by (simp add: valid_buffer_def)
  ultimately have c: "account_offset m input (unat (read_u64 m input)) < 2 ^ 64"
    by linarith
  have "account_offset m input k < account_offset m input (unat (read_u64 m input))"
    using a b by linarith
  then have "input + of_nat (account_offset m input k)
      \<noteq> input + of_nat (account_offset m input (unat (read_u64 m input)))"
    using c by (rule offset_address_distinct)
  then have e: "data s' \<noteq> input + of_nat (account_offset m input (unat (read_u64 m input))) + 8"
    unfolding d by simp
  from d a b e show ?thesis by blast
qed

theorem truncation_reads_next_account_witness:
  "valid_buffer (example_mem 1) 4096 342 \<and>
   (2 :: 64 word) < read_u64 (example_mem 1) 4096 \<and>
   unat (2 :: 64 word) < 2 ^ 31 \<and>
   data_len (snd (sol_deserialize (example_mem 1) 4096 2 (example_state\<lparr>ka_len_out := Some 0\<rparr>))) =
     read_u64 (example_mem 1) 4267 \<and>
   data (snd (sol_deserialize (example_mem 1) 4096 2 (example_state\<lparr>ka_len_out := Some 0\<rparr>))) = 4275"
proof -
  have lt: "(2 :: 64 word) < read_u64 (example_mem 1) 4096" by (simp add: example_count)
  have small: "unat (2 :: 64 word) < 2 ^ 31" by simp
  have k: "(2 :: nat) = unat (2 :: 64 word)" by simp
  from truncation_reads_next_account
    [OF example_valid lt small k refl, where s = example_state and c = 0]
  show ?thesis using example_valid lt by (simp add: example_offsets)
qed

section \<open>Positions of the views\<close>

text \<open>
  Claim C3. Whenever \<open>sol_deserialize\<close> returns true, the views it wrote follow one
  another in the buffer without gaps: the first identity key is at \<open>input + 8\<close>, right
  after the count; in every view the balance is 32 bytes after the key, the data length
  is the eight bytes after the balance, the data begins right after the length, and the
  owner key begins \<open>userdata_len\<close> bytes after the data; the next view's key is 32
  bytes after the owner key. The instruction-data length is read from the eight bytes
  after the last decoded account and the instruction-data pointer is the address after
  those. Every field is an address in the caller's memory \<open>m\<close>, which the function does
  not change. The loop index is a C \<open>int\<close>, so the statement is for at most
  \<open>INT_MAX\<close> decoded accounts.
\<close>

theorem decoded_views_positional:
  assumes "sol_deserialize m input ka_len s = (True, s')"
    and "n = unat (decoded_count m input ka_len s)" and "n < 2 ^ 31"
  shows "(\<forall>i<n.
            key (ka_arr s' (int i)) =
              (if i = 0 then input + 8 else program_id (ka_arr s' (int i - 1)) + 32) \<and>
            tokens (ka_arr s' (int i)) = key (ka_arr s' (int i)) + 32 \<and>
            userdata_len (ka_arr s' (int i)) = read_u64 m (tokens (ka_arr s' (int i)) + 8) \<and>
            userdata (ka_arr s' (int i)) = tokens (ka_arr s' (int i)) + 16 \<and>
            program_id (ka_arr s' (int i)) =
              userdata (ka_arr s' (int i)) + userdata_len (ka_arr s' (int i))) \<and>
         data_len s' =
           read_u64 m (if n = 0 then input + 8 else program_id (ka_arr s' (int n - 1)) + 32) \<and>
         data s' = (if n = 0 then input + 8 else program_id (ka_arr s' (int n - 1)) + 32) + 8"
proof -
  have ok: "fst (sol_deserialize m input ka_len s)" using assms(1) by simp
  have small: "unat (decoded_count m input ka_len s) < 2 ^ 31" using assms by simp
  note L = sol_deserialize_layout [OF small ok, unfolded assms(1)]
  have ka: "ka_arr s' (int i) = view_at m (account_start m input i)" if "i < n" for i
    using that L assms(2) by (auto simp: int_less_uint_iff)
  have nxt: "account_start m input (Suc i) = program_id (view_at m (account_start m input i)) + 32" for i
    by (simp add: view_at_def Let_def add.assoc)
  have per: "key (ka_arr s' (int i)) =
              (if i = 0 then input + 8 else program_id (ka_arr s' (int i - 1)) + 32)" if "i < n" for i
  proof (cases i)
    case 0
    then show ?thesis using ka [OF that] by (simp add: view_at_def)
  next
    case (Suc k)
    then have "k < n" using that by simp
    from ka [OF this] ka [OF that] show ?thesis
      unfolding Suc by (simp add: nxt add.commute del: account_start.simps) (simp add: view_at_def)
  qed
  have fin: "account_start m input n =
      (if n = 0 then input + 8 else program_id (ka_arr s' (int n - 1)) + 32)"
  proof (cases n)
    case 0
    then show ?thesis by simp
  next
    case (Suc k)
    then have "k < n" by simp
    from ka [OF this] show ?thesis unfolding Suc by (simp add: nxt del: account_start.simps)
  qed
  have d: "data_len s' = read_u64 m (account_start m input n)" "data s' = account_start m input n + 8"
    using L assms(2) by auto
  show ?thesis
    using per ka d unfolding fin by (auto simp: view_at_def add.assoc simp del: account_start.simps)
qed

theorem decoded_views_positional_witness:
  "sol_deserialize (example_mem 1) 4096 4 example_state =
     (True, snd (sol_deserialize (example_mem 1) 4096 4 example_state)) \<and>
   (4 :: nat) = unat (decoded_count (example_mem 1) 4096 4 example_state) \<and>
   (4 :: nat) < 2 ^ 31 \<and>
   key (ka_arr (snd (sol_deserialize (example_mem 1) 4096 4 example_state)) 0) = 4104 \<and>
   data (snd (sol_deserialize (example_mem 1) 4096 4 example_state)) =
     program_id (ka_arr (snd (sol_deserialize (example_mem 1) 4096 4 example_state)) 3) + 32 + 8"
proof -
  have none: "ka_len_out example_state = None" by (simp add: example_state_def)
  have ok: "sol_deserialize (example_mem 1) 4096 4 example_state =
     (True, snd (sol_deserialize (example_mem 1) 4096 4 example_state))"
    using none by (rule exact_mode_accepts) (simp add: example_count)
  have n: "(4 :: nat) = unat (decoded_count (example_mem 1) 4096 4 example_state)"
    by (simp add: decoded_count_def none)
  have small: "(4 :: nat) < 2 ^ 31" by simp
  note T = decoded_views_positional [OF ok n small]
  have k0: "key (ka_arr (snd (sol_deserialize (example_mem 1) 4096 4 example_state)) 0) = 4104"
    using T [THEN conjunct1, rule_format, of 0] by simp
  have d: "data (snd (sol_deserialize (example_mem 1) 4096 4 example_state)) =
     program_id (ka_arr (snd (sol_deserialize (example_mem 1) 4096 4 example_state)) 3) + 32 + 8"
    using T [THEN conjunct2, THEN conjunct2] by simp
  show ?thesis by (intro conjI) (rule ok n small k0 d)+
qed

section \<open>Duplicate accounts\<close>



section \<open>The duplicate-accounts program\<close>

text \<open>
  Claim C7. When the deserializer succeeds and the first instruction byte is 1, the
  program returns \<open>SUCCESS\<close>, the byte at \<open>ka[2].data\<close> is 1 afterwards, every other
  byte of memory is as before, and so is every 64-bit balance none of whose eight bytes
  is that byte.
\<close>

theorem opcode_1_sets_one_byte:
  assumes "sdk_deserialize sdk (memory st) input 4 = Some params"
    and "memory st (params_data params) = 1"
    and "p = info_data (params_ka params 2)"
    and "(r, st') = entrypoint sdk input st"
  shows "r = SUCCESS sdk \<and>
    memory st' p = 1 \<and>
    (\<forall>a. a \<noteq> p \<longrightarrow> memory st' a = memory st a) \<and>
    (\<forall>l. (\<forall>k<8. l + of_nat k \<noteq> p) \<longrightarrow> read_u64 (memory st') l = read_u64 (memory st) l)"
  using assms
  by (simp add: entrypoint_def store_byte_def sol_log_def read_u64_fun_upd_other)

theorem opcode_1_sets_one_byte_witness:
  "sdk_deserialize sol_bpf_sdk (example_mem 1) 4096 4 \<noteq> None \<and>
   example_mem 1 (params_data (the (sdk_deserialize sol_bpf_sdk (example_mem 1) 4096 4))) = 1 \<and>
   fst (entrypoint sol_bpf_sdk 4096 \<lparr>memory = example_mem 1, logged = []\<rparr>) = 0 \<and>
   memory (snd (entrypoint sol_bpf_sdk 4096 \<lparr>memory = example_mem 1, logged = []\<rparr>)) 4315 = 1 \<and>
   memory (snd (entrypoint sol_bpf_sdk 4096 \<lparr>memory = example_mem 1, logged = []\<rparr>)) 4396 = 8"
proof -
  let ?st = "\<lparr>memory = example_mem 1, logged = []\<rparr>"
  let ?P = "the (sdk_deserialize sol_bpf_sdk (example_mem 1) 4096 4)"
  have d: "sdk_deserialize sol_bpf_sdk (memory ?st) 4096 4 = Some ?P"
    by (simp add: example_sdk_decode)
  have o: "memory ?st (params_data ?P) = 1"
    by (simp add: example_sdk_decode example_bytes)
  have p: "4315 = info_data (params_ka ?P 2)"
    by (simp add: example_sdk_decode example_views)
  have e: "(fst (entrypoint sol_bpf_sdk 4096 ?st), snd (entrypoint sol_bpf_sdk 4096 ?st)) =
      entrypoint sol_bpf_sdk 4096 ?st" by simp
  note T = opcode_1_sets_one_byte [OF d o p e]
  have nn: "sdk_deserialize sol_bpf_sdk (example_mem 1) 4096 4 \<noteq> None"
    by (simp add: example_sdk_decode)
  have o': "example_mem 1 (params_data ?P) = 1" using o by simp
  have r: "fst (entrypoint sol_bpf_sdk 4096 ?st) = 0"
    using T by (simp add: sol_bpf_sdk_codes)
  have w: "memory (snd (entrypoint sol_bpf_sdk 4096 ?st)) 4315 = 1"
    using T by simp
  have u: "memory (snd (entrypoint sol_bpf_sdk 4096 ?st)) 4396 = 8"
    using T [THEN conjunct2, THEN conjunct2, THEN conjunct1, rule_format, of 4396]
    by (simp add: example_bytes)
  show ?thesis by (intro conjI) (rule nn o' r w u)+
qed

text \<open>
  Claim C8. When the deserializer succeeds and the first instruction byte is none of
  1 to 6, the program returns \<open>ERROR_INVALID_INSTRUCTION_DATA\<close> and memory is
  unchanged: no balance and no data byte is written.
\<close>

theorem unrecognized_opcode_rejected:
  assumes "sdk_deserialize sdk (memory st) input 4 = Some params"
    and "memory st (params_data params) \<notin> {1, 2, 3, 4, 5, 6}"
  shows "fst (entrypoint sdk input st) = ERROR_INVALID_INSTRUCTION_DATA sdk \<and>
    memory (snd (entrypoint sdk input st)) = memory st"
  using assms by (simp add: entrypoint_def sol_log_def)

theorem unrecognized_opcode_rejected_witness:
  "sdk_deserialize sol_bpf_sdk (example_mem 9) 4096 4 \<noteq> None \<and>
   example_mem 9 (params_data (the (sdk_deserialize sol_bpf_sdk (example_mem 9) 4096 4)))
     \<notin> {1, 2, 3, 4, 5, 6} \<and>
   fst (entrypoint sol_bpf_sdk 4096 \<lparr>memory = example_mem 9, logged = []\<rparr>) = 2 \<and>
   memory (snd (entrypoint sol_bpf_sdk 4096 \<lparr>memory = example_mem 9, logged = []\<rparr>)) = example_mem 9"
proof -
  let ?st = "\<lparr>memory = example_mem 9, logged = []\<rparr>"
  let ?P = "the (sdk_deserialize sol_bpf_sdk (example_mem 9) 4096 4)"
  have d: "sdk_deserialize sol_bpf_sdk (memory ?st) 4096 4 = Some ?P"
    by (simp add: example_sdk_decode)
  have o: "memory ?st (params_data ?P) \<notin> {1, 2, 3, 4, 5, 6}"
    by (simp add: example_sdk_decode example_bytes)
  note T = unrecognized_opcode_rejected [OF d o]
  have nn: "sdk_deserialize sol_bpf_sdk (example_mem 9) 4096 4 \<noteq> None"
    by (simp add: example_sdk_decode)
  have o': "example_mem 9 (params_data ?P) \<notin> {1, 2, 3, 4, 5, 6}" using o by simp
  have r: "fst (entrypoint sol_bpf_sdk 4096 ?st) = 2"
    using T by (simp add: sol_bpf_sdk_codes)
  have u: "memory (snd (entrypoint sol_bpf_sdk 4096 ?st)) = example_mem 9"
    using T by simp
  show ?thesis by (intro conjI) (rule nn o' r u)+
qed

section \<open>Privilege escalation\<close>

text \<open>
  Claim C5, as stated, fails for the signer flag: the caller's grant for account
  \<open>[2]\<close> has no signer authority, the caller is entitled to assert derived signer
  authority for it, and the call that requests signer authority for it is accepted; the
  callee holds it as a signer.
\<close>

theorem derived_signer_accepted:
  "example_outer [2] = Some \<lparr>signer = False, writable = False\<rparr> \<and>
   \<not> isl (validate_call example_outer [[2]] [([2], \<lparr>signer = True, writable = False\<rparr>)]) \<and>
   projr (validate_call example_outer [[2]] [([2], \<lparr>signer = True, writable = False\<rparr>)]) [2] =
     Some \<lparr>signer = True, writable = False\<rparr>"
  by (simp add: example_outer_def request_allowed_def join_grant_def)

text \<open>
  Claim C5, amended. A call whose request asks signer authority for an account for which
  the caller's grant has none, and for which the caller is not entitled to assert
  derived signer authority, is rejected with \<open>PrivilegeViolation\<close>, whatever else the
  request holds. Independently, a call whose request asks writable authority for an
  account for which the caller's grant has none is rejected with
  \<open>PrivilegeViolation\<close>, with no exception.
\<close>

theorem escalation_rejected:
  assumes "(k, g) \<in> set req" and "caller k = Some h"
  shows "(signer g \<and> \<not> signer h \<and> k \<notin> set derived \<longrightarrow>
            validate_call caller derived req = Inl PrivilegeViolation) \<and>
         (writable g \<and> \<not> writable h \<longrightarrow>
            validate_call caller derived req = Inl PrivilegeViolation)"
  using validate_call_rejects [OF assms(1), of caller derived] assms(2)
  by (auto simp: request_allowed_def)

theorem escalation_rejected_witness:
  "([2 :: 8 word], \<lparr>signer = True, writable = False\<rparr>) \<in>
     set [([1], \<lparr>signer = True, writable = True\<rparr>), ([2], \<lparr>signer = True, writable = False\<rparr>)] \<and>
   example_outer [2] = Some \<lparr>signer = False, writable = False\<rparr> \<and>
   [2] \<notin> set [[1 :: 8 word]] \<and>
   validate_call example_outer [[1]]
     [([1], \<lparr>signer = True, writable = True\<rparr>), ([2], \<lparr>signer = True, writable = False\<rparr>)]
     = Inl PrivilegeViolation \<and>
   validate_call example_outer [[2]] [([2], \<lparr>signer = False, writable = True\<rparr>)]
     = Inl PrivilegeViolation"
proof -
  have m: "example_outer [2] = Some \<lparr>signer = False, writable = False\<rparr>"
    by (simp add: example_outer_def)
  have a: "([2 :: 8 word], \<lparr>signer = True, writable = False\<rparr>) \<in>
     set [([1], \<lparr>signer = True, writable = True\<rparr>), ([2], \<lparr>signer = True, writable = False\<rparr>)]"
    by simp
  have b: "([2 :: 8 word], \<lparr>signer = False, writable = True\<rparr>) \<in>
     set [([2], \<lparr>signer = False, writable = True\<rparr>)]"
    by simp
  have n: "[2] \<notin> set [[1 :: 8 word]]" by simp
  note A = escalation_rejected [where caller = example_outer and k = "[2]" and derived = "[[1]]", OF a m]
  note B = escalation_rejected [where caller = example_outer and k = "[2]" and derived = "[[2]]", OF b m]
  from A B a m n show ?thesis by simp
qed

text \<open>
  Claim C6, as stated, fails for the signer flag: the outermost frame holds signer and
  writable authority for account \<open>[1]\<close>; the first call passes it without signer
  authority and is accepted; the second call, whose caller is entitled to assert
  derived signer authority for it, asks signer authority back and is accepted too.
\<close>

theorem derived_signer_rewidens:
  "example_outer [1] = Some \<lparr>signer = True, writable = True\<rparr> \<and>
   \<not> isl (validate_call example_outer [] [([1], \<lparr>signer = False, writable = True\<rparr>)]) \<and>
   projr (validate_call example_outer [] [([1], \<lparr>signer = False, writable = True\<rparr>)]) [1] =
     Some \<lparr>signer = False, writable = True\<rparr> \<and>
   \<not> isl (nested_calls example_outer
     [([], [([1], \<lparr>signer = False, writable = True\<rparr>)]),
      ([[1]], [([1], \<lparr>signer = True, writable = True\<rparr>)])]) \<and>
   projr (nested_calls example_outer
     [([], [([1], \<lparr>signer = False, writable = True\<rparr>)]),
      ([[1]], [([1], \<lparr>signer = True, writable = True\<rparr>)])]) [1] =
     Some \<lparr>signer = True, writable = True\<rparr>"
  by (simp add: example_outer_def request_allowed_def join_grant_def)

text \<open>
  Claim C6, amended. Let the outermost frame hold grant \<open>h\<close> for account \<open>k\<close> and let
  the first call, all of whose listings are allowed, leave the callee with grant \<open>g\<close>
  for \<open>k\<close>. That call is accepted and \<open>g\<close> is allowed against \<open>h\<close>. After any further
  chain of accepted calls, a request for \<open>k\<close> with writable authority that \<open>g\<close> lacks
  is rejected with \<open>PrivilegeViolation\<close>; so is a request with signer authority that
  \<open>g\<close> lacks, provided no caller from the first callee on is entitled to assert
  derived signer authority for \<open>k\<close>. The outermost frame would have accepted the same
  request on its own grant: the narrowed grant is the ceiling for all deeper frames,
  derived signer authority apart.
\<close>

theorem narrowed_grant_is_ceiling:
  assumes "outer k = Some h"
    and "\<forall>(k', g') \<in> set r1. \<exists>h'. outer k' = Some h' \<and> request_allowed h' (k' \<in> set d1) g'"
    and "projr (validate_call outer d1 r1) k = Some g"
    and "nested_calls outer ((d1, r1) # calls) = Inr f"
    and "(k, g') \<in> set req"
    and "(signer g' \<and> \<not> signer g \<and> k \<notin> set d \<and> (\<forall>(d', r') \<in> set calls. k \<notin> set d')) \<or>
         (writable g' \<and> \<not> writable g)"
    and "request_allowed h False g'"
  shows "\<not> isl (validate_call outer d1 r1) \<and>
         request_allowed h (k \<in> set d1) g \<and>
         validate_call f d req = Inl PrivilegeViolation \<and>
         \<not> isl (validate_call outer [] [(k, g')])"
proof -
  have v: "\<not> isl (validate_call outer d1 r1)" using assms(2) by (rule validate_call_complete)
  then obtain f1 where f1: "validate_call outer d1 r1 = Inr f1"
    by (cases "validate_call outer d1 r1") auto
  with assms(3) have g: "f1 k = Some g" by simp
  from validate_call_accepts [OF f1 g] assms(1) have n: "request_allowed h (k \<in> set d1) g"
    by simp
  have rest: "nested_calls f1 calls = Inr f" using assms(4) f1 by simp
  have "\<not> request_allowed g2 (k \<in> set d) g'" if "f k = Some g2" for g2
  proof -
    from nested_calls_ceiling [OF rest that] g
    have w: "writable g2 \<longrightarrow> writable g"
      and s: "signer g2 \<longrightarrow> signer g \<or> (\<exists>(d', r') \<in> set calls. k \<in> set d')" by auto
    from assms(6) w s show ?thesis by (auto simp: request_allowed_def)
  qed
  then have r: "validate_call f d req = Inl PrivilegeViolation"
    using validate_call_rejects [OF assms(5), of f d] by blast
  have o: "\<not> isl (validate_call outer [] [(k, g')])"
    using assms(1,7) by simp
  from v n r o show ?thesis by blast
qed

theorem narrowed_grant_is_ceiling_witness:
  "example_outer [1] = Some \<lparr>signer = True, writable = True\<rparr> \<and>
   projr (validate_call example_outer [] [([1], \<lparr>signer = True, writable = False\<rparr>)]) [1] =
     Some \<lparr>signer = True, writable = False\<rparr> \<and>
   \<not> isl (nested_calls example_outer
     [([], [([1], \<lparr>signer = True, writable = False\<rparr>)]),
      ([], [([1], \<lparr>signer = False, writable = False\<rparr>)])]) \<and>
   validate_call
     (projr (nested_calls example_outer
       [([], [([1], \<lparr>signer = True, writable = False\<rparr>)]),
        ([], [([1], \<lparr>signer = False, writable = False\<rparr>)])]))
     [[1]] [([1], \<lparr>signer = True, writable = True\<rparr>)] = Inl PrivilegeViolation \<and>
   \<not> isl (validate_call example_outer [] [([1], \<lparr>signer = True, writable = True\<rparr>)])"
proof -
  let ?r1 = "[([1 :: 8 word], \<lparr>signer = True, writable = False\<rparr>)]"
  let ?calls = "[([] :: identity list, [([1 :: 8 word], \<lparr>signer = False, writable = False\<rparr>)])]"
  let ?f = "projr (nested_calls example_outer (([], ?r1) # ?calls))"
  let ?g' = "\<lparr>signer = True, writable = True\<rparr>"
  have o: "example_outer [1] = Some \<lparr>signer = True, writable = True\<rparr>"
    by (simp add: example_outer_def)
  have a: "\<forall>(k', g') \<in> set ?r1.
      \<exists>h'. example_outer k' = Some h' \<and> request_allowed h' (k' \<in> set []) g'"
    by (simp add: example_outer_def request_allowed_def)
  have g: "projr (validate_call example_outer [] ?r1) [1] = Some \<lparr>signer = True, writable = False\<rparr>"
    by (simp add: example_outer_def request_allowed_def join_grant_def)
  have ok: "\<not> isl (nested_calls example_outer (([], ?r1) # ?calls))"
    by (simp add: example_outer_def request_allowed_def join_grant_def)
  then have c: "nested_calls example_outer (([], ?r1) # ?calls) = Inr ?f"
    by (cases "nested_calls example_outer (([], ?r1) # ?calls)") auto
  have r: "([1 :: 8 word], ?g') \<in> set [([1], ?g')]" by simp
  have w: "(signer ?g' \<and> \<not> signer \<lparr>signer = True, writable = False\<rparr> \<and> [1 :: 8 word] \<notin> set [[1]] \<and>
        (\<forall>(d', r') \<in> set ?calls. [1] \<notin> set d')) \<or>
     (writable ?g' \<and> \<not> writable \<lparr>signer = True, writable = False\<rparr>)"
    by simp
  have p: "request_allowed \<lparr>signer = True, writable = True\<rparr> False ?g'"
    by (simp add: request_allowed_def)
  note T = narrowed_grant_is_ceiling [OF o a g c r w p]
  show ?thesis
    by (intro conjI) (use o g ok T in blast)+
qed

end
